theory Spec2Isabelle
  imports Main "HOL-Library.Word" "HOL-Library.Sublist"
begin

section \<open>JavaScript strings\<close>

text \<open>
  A JavaScript string is a sequence of UTF-16 code units. The pages compare strings with
  \<^verbatim>\<open>===\<close> (equality of the code-unit sequences), test single code units against
  character classes and cut strings at positions, so a list of 16-bit words is the
  string type of the model. \<open>js\<close> embeds an ASCII literal of the source.
\<close>

type_synonym jschar = "16 word"
type_synonym jsstring = "jschar list"

definition js :: "string \<Rightarrow> jsstring" where
  "js s = map of_char s"

text \<open>
  \<^verbatim>\<open>a || b\<close> on a value that is a string or \<^verbatim>\<open>undefined\<close>: the left operand when it
  is truthy (a non-empty string), the right operand otherwise.
\<close>

definition or_default :: "jsstring option \<Rightarrow> jsstring \<Rightarrow> jsstring" where
  "or_default v d = (case v of None \<Rightarrow> d | Some s \<Rightarrow> if s = [] then d else s)"

section \<open>API configuration (\<^verbatim>\<open>lib/api-config\<close>)\<close>

text \<open>
  \<^verbatim>\<open>getApiBaseUrl\<close> reads \<^verbatim>\<open>process.env.NODE_ENV\<close>, which is a parameter here.
\<close>

definition getApiBaseUrl :: "jsstring option \<Rightarrow> jsstring" where
  "getApiBaseUrl node_env =
     (if node_env = Some (js ''development'') then js ''http://localhost:8000''
      else js ''https://youareamazing-api.ambitiousmushroom-0229ef63.westus2.azurecontainerapps.io'')"

definition API_BASE_URL :: "jsstring option \<Rightarrow> jsstring" where
  "API_BASE_URL node_env = getApiBaseUrl node_env"

definition AMAZING_API_URL :: "jsstring option \<Rightarrow> jsstring" where
  "AMAZING_API_URL node_env = API_BASE_URL node_env @ js ''/api/amazing''"

section \<open>The admin page (\<^verbatim>\<open>app/delete/page.tsx\<close>)\<close>

text \<open>
  The component's state is the six \<^verbatim>\<open>useState\<close> cells. A handler reads the cells of
  the render it was created in and calls setters; the model passes the state through and
  returns it updated.
\<close>

datatype message_type = Success | Error | NoType

record delete_page =
  username :: jsstring
  password :: jsstring
  isAuthenticated :: bool
  isLoading :: bool
  message :: jsstring
  messageType :: message_type

definition initial_delete_page :: delete_page where
  "initial_delete_page =
     \<lparr>username = [], password = [], isAuthenticated = False, isLoading = False,
      message = [], messageType = NoType\<rparr>"

text \<open>
  The build-time environment: \<^verbatim>\<open>NEXT_PUBLIC_ADMIN_USERNAME\<close>,
  \<^verbatim>\<open>NEXT_PUBLIC_ADMIN_PASSWORD\<close> and \<^verbatim>\<open>NODE_ENV\<close>, each a string or undefined.
\<close>

record environment =
  NEXT_PUBLIC_ADMIN_USERNAME :: "jsstring option"
  NEXT_PUBLIC_ADMIN_PASSWORD :: "jsstring option"
  NODE_ENV :: "jsstring option"

definition no_environment :: environment where
  "no_environment =
     \<lparr>NEXT_PUBLIC_ADMIN_USERNAME = None, NEXT_PUBLIC_ADMIN_PASSWORD = None, NODE_ENV = None\<rparr>"

definition validUsername :: "environment \<Rightarrow> jsstring" where
  "validUsername env = or_default (NEXT_PUBLIC_ADMIN_USERNAME env) (js ''login_admin'')"

definition validPassword :: "environment \<Rightarrow> jsstring" where
  "validPassword env = or_default (NEXT_PUBLIC_ADMIN_PASSWORD env) (js ''amazing_password_123'')"

definition handleLogin :: "environment \<Rightarrow> delete_page \<Rightarrow> delete_page" where
  "handleLogin env s =
     (let s1 = s\<lparr>isLoading := True, message := []\<rparr>;
          s2 = (if username s = validUsername env \<and> password s = validPassword env
                then s1\<lparr>isAuthenticated := True,
                        message := js ''Authentication successful!'',
                        messageType := Success\<rparr>
                else s1\<lparr>message := js ''Invalid username or password'',
                        messageType := Error\<rparr>)
      in s2\<lparr>isLoading := False\<rparr>)"

text \<open>
  A \<^verbatim>\<open>fetch\<close> call: the URL and the \<^verbatim>\<open>init\<close> object the page passes. The page sets
  \<^verbatim>\<open>method\<close> only, so the headers are empty and there is no body. The answer is a
  response with its \<^verbatim>\<open>ok\<close> flag, or a rejected promise.
\<close>

record request =
  req_url :: jsstring
  req_method :: jsstring
  req_headers :: "(jsstring \<times> jsstring) list"
  req_body :: "jsstring option"

datatype fetch_result = Response bool | Rejected

text \<open>
  \<^verbatim>\<open>handleDeleteAll\<close>: \<open>confirmed\<close> is the answer of \<^verbatim>\<open>window.confirm\<close>, \<open>fetch\<close> the
  network. The result is the list of requests sent and the state after the handler.
\<close>

definition delete_request :: "environment \<Rightarrow> request" where
  "delete_request env =
     \<lparr>req_url = AMAZING_API_URL (NODE_ENV env), req_method = js ''DELETE'',
      req_headers = [], req_body = None\<rparr>"

definition handleDeleteAll ::
  "environment \<Rightarrow> bool \<Rightarrow> (request \<Rightarrow> fetch_result) \<Rightarrow> delete_page \<Rightarrow> request list \<times> delete_page" where
  "handleDeleteAll env confirmed fetch s =
     (if \<not> confirmed then ([], s)
      else
        let s1 = s\<lparr>isLoading := True, message := []\<rparr>;
            r = delete_request env;
            s2 = (case fetch r of
                    Response True \<Rightarrow>
                      s1\<lparr>message := js ''All messages have been successfully deleted!'',
                         messageType := Success\<rparr>
                  | _ \<Rightarrow>
                      s1\<lparr>message := js ''Failed to delete messages. Please try again.'',
                         messageType := Error\<rparr>)
        in ([r], s2\<lparr>isLoading := False\<rparr>))"

definition handleLogout :: "delete_page \<Rightarrow> delete_page" where
  "handleLogout s =
     s\<lparr>isAuthenticated := False, username := [], password := [], message := [],
       messageType := NoType\<rparr>"

section \<open>The JavaScript runtime the two list pages call\<close>

subsection \<open>Character classes\<close>

text \<open>
  \<^verbatim>\<open>\s\<close> and \<^verbatim>\<open>String.prototype.trim\<close> use the same set: ECMAScript's WhiteSpace
  (TAB, VT, FF, SP, NBSP, ZWNBSP and the space separators) and LineTerminator (LF, CR,
  LS, PS). \<^verbatim>\<open>\d\<close> is the ten ASCII digits.
\<close>

definition is_space :: "jschar \<Rightarrow> bool" where
  "is_space c \<longleftrightarrow>
     c \<in> {0x9, 0xA, 0xB, 0xC, 0xD, 0x20, 0xA0, 0x1680, 0x2028, 0x2029, 0x202F, 0x205F,
          0x3000, 0xFEFF}
     \<or> (0x2000 \<le> c \<and> c \<le> 0x200A)"

definition is_digit :: "jschar \<Rightarrow> bool" where
  "is_digit c \<longleftrightarrow> 0x30 \<le> c \<and> c \<le> 0x39"

text \<open>
  With the \<^verbatim>\<open>i\<close> flag and without the \<^verbatim>\<open>u\<close> flag a pattern character and an input
  code unit match when their canonical forms agree: the upper-case mapping, except that a
  code unit from 128 on is never mapped below 128. The patterns' letters are ASCII, so
  only an ASCII code unit can match one, and for those the mapping is \<open>ascii_upper\<close>.
\<close>

definition ascii_upper :: "jschar \<Rightarrow> jschar" where
  "ascii_upper c = (if 0x61 \<le> c \<and> c \<le> 0x7A then c - 0x20 else c)"

definition same_letter :: "char \<Rightarrow> jschar \<Rightarrow> bool" where
  "same_letter a x \<longleftrightarrow> x < 0x80 \<and> ascii_upper x = ascii_upper (of_char a)"

subsection \<open>String methods\<close>

definition trim :: "jsstring \<Rightarrow> jsstring" where
  "trim s = rev (dropWhile is_space (rev (dropWhile is_space s)))"

text \<open>\<^verbatim>\<open>s.split(sep)\<close> for a separator of one code unit, and \<^verbatim>\<open>a.join(sep)\<close>.\<close>

fun String_split :: "jschar \<Rightarrow> jsstring \<Rightarrow> jsstring list" where
  "String_split sep [] = [[]]"
| "String_split sep (x # xs) =
     (if x = sep then [] # String_split sep xs
      else (case String_split sep xs of [] \<Rightarrow> [[x]] | l # ls \<Rightarrow> (x # l) # ls))"

fun Array_join :: "jsstring \<Rightarrow> jsstring list \<Rightarrow> jsstring" where
  "Array_join sep [] = []"
| "Array_join sep [l] = l"
| "Array_join sep (l # ls) = l @ sep @ Array_join sep ls"

subsection \<open>Numbers\<close>

text \<open>
  A repetition count is a JavaScript number. The model reads it as a natural number:
  the decimal conversions below are those of the runtime for the integers from 0 to
  \<open>2^53 - 1\<close>, which a double holds exactly; the theorems about counts stay in that
  range. \<open>Number_toString\<close> is the conversion a template literal applies.
\<close>

function Number_toString :: "nat \<Rightarrow> jsstring" where
  "Number_toString n =
     (if n < 10 then [of_nat (48 + n)]
      else Number_toString (n div 10) @ [of_nat (48 + n mod 10)])"
  by pat_completeness auto
termination
  by (relation "measure (\<lambda>n. n)") auto

declare Number_toString.simps [simp del]

definition digit_value :: "jschar \<Rightarrow> nat" where
  "digit_value c = unat c - 48"

text \<open>
  \<^verbatim>\<open>parseInt(s)\<close> on a string that starts with no white space, sign or \<^verbatim>\<open>0x\<close> (the
  page passes a capture of \<^verbatim>\<open>\d+\<close>): the value of the leading decimal digits, NaN
  (\<open>None\<close>) when there is none.
\<close>

definition decimal :: "jsstring \<Rightarrow> nat" where
  "decimal ds = foldl (\<lambda>a d. 10 * a + digit_value d) 0 ds"

definition parseInt :: "jsstring \<Rightarrow> nat option" where
  "parseInt s =
     (let ds = takeWhile is_digit s
      in if ds = [] then None else Some (decimal ds))"

subsection \<open>Regular expressions\<close>

text \<open>
  The three patterns of the upload page use single characters, character classes, greedy
  \<^verbatim>\<open>*\<close> and \<^verbatim>\<open>+\<close> on a class, one alternation, capture groups and \<^verbatim>\<open>$\<close>. A pattern
  is a list of nodes; \<open>Mark\<close> is the matcher's own node, which closes a group opened
  at the remembered input.

  \<open>matcher k s c\<close> is the backtracking matcher of the language definition: it runs the
  nodes \<open>k\<close> on the input \<open>s\<close> with the captures \<open>c\<close> and returns the input left
  over and the captures of the first successful path, trying the longer repetition and
  the left alternative first.
\<close>

datatype node =
    Chr "jschar \<Rightarrow> bool"
  | Star "jschar \<Rightarrow> bool"
  | Alt "node list" "node list"
  | Grp nat "node list"
  | Eol
  | Mark nat jsstring

fun weight :: "node \<Rightarrow> nat" where
  "weight (Alt a b) = Suc (sum_list (map weight a) + sum_list (map weight b))"
| "weight (Grp n a) = Suc (Suc (sum_list (map weight a)))"
| "weight _ = 1"

type_synonym captures = "nat \<rightharpoonup> jsstring"

function (sequential) matcher ::
  "node list \<Rightarrow> jsstring \<Rightarrow> captures \<Rightarrow> (jsstring \<times> captures) option" where
  "matcher [] s c = Some (s, c)"
| "matcher (Chr p # k) [] c = None"
| "matcher (Chr p # k) (x # xs) c = (if p x then matcher k xs c else None)"
| "matcher (Star p # k) [] c = matcher k [] c"
| "matcher (Star p # k) (x # xs) c =
     (if p x then
        (case matcher (Star p # k) xs c of
           Some r \<Rightarrow> Some r
         | None \<Rightarrow> matcher k (x # xs) c)
      else matcher k (x # xs) c)"
| "matcher (Alt a b # k) s c =
     (case matcher (a @ k) s c of
        Some r \<Rightarrow> Some r
      | None \<Rightarrow> matcher (b @ k) s c)"
| "matcher (Grp n a # k) s c = matcher (a @ Mark n s # k) s c"
| "matcher (Mark n s0 # k) s c = matcher k s (c(n \<mapsto> take (length s0 - length s) s0))"
| "matcher (Eol # k) s c = (if s = [] then matcher k s c else None)"
  by pat_completeness auto
termination
  by (relation "measures [\<lambda>(k, s, c). sum_list (map weight k), \<lambda>(k, s, c). length s]") auto

text \<open>
  A match: the input before it, the matched text, the input after it and the captures.
  \<open>exec\<close> is \<^verbatim>\<open>RegExp.prototype.exec\<close> for a pattern without the \<^verbatim>\<open>g\<close> and \<^verbatim>\<open>y\<close>
  flags: it tries each start position from the left, the end of the input included.
\<close>

record regexp_match =
  match_before :: jsstring
  match_text :: jsstring
  match_after :: jsstring
  match_groups :: captures

fun exec :: "node list \<Rightarrow> jsstring \<Rightarrow> jsstring \<Rightarrow> regexp_match option" where
  "exec re pre s =
     (case matcher re s Map.empty of
        Some (rest, c) \<Rightarrow>
          Some \<lparr>match_before = pre, match_text = take (length s - length rest) s,
                match_after = rest, match_groups = c\<rparr>
      | None \<Rightarrow> (case s of [] \<Rightarrow> None | x # xs \<Rightarrow> exec re (pre @ [x]) xs))"

declare exec.simps [simp del]

definition String_match :: "jsstring \<Rightarrow> node list \<Rightarrow> regexp_match option" where
  "String_match s re = exec re [] s"

definition String_replace :: "jsstring \<Rightarrow> node list \<Rightarrow> jsstring \<Rightarrow> jsstring" where
  "String_replace s re new =
     (case exec re [] s of
        None \<Rightarrow> s
      | Some m \<Rightarrow> match_before m @ new @ match_after m)"

text \<open>\<open>group m n\<close> is \<^verbatim>\<open>m[n]\<close>; a group that took no part reads as the empty string.\<close>

definition group :: "regexp_match \<Rightarrow> nat \<Rightarrow> jsstring" where
  "group m n = (case match_groups m n of Some g \<Rightarrow> g | None \<Rightarrow> [])"

definition chr :: "char \<Rightarrow> node" where
  "chr a = Chr (\<lambda>x. x = of_char a)"

definition chr_i :: "char \<Rightarrow> node" where
  "chr_i a = Chr (same_letter a)"

definition not_chr :: "char \<Rightarrow> jschar \<Rightarrow> bool" where
  "not_chr a x \<longleftrightarrow> x \<noteq> of_char a"

definition one_or_more :: "(jschar \<Rightarrow> bool) \<Rightarrow> node list" where
  "one_or_more p = [Chr p, Star p]"

subsection \<open>Blobs and files\<close>

text \<open>
  \<^verbatim>\<open>new Blob([s])\<close> stores the UTF-8 encoding of \<open>s\<close>, in which a surrogate that is not
  part of a pair becomes U+FFFD; \<^verbatim>\<open>file.text()\<close> decodes the bytes as UTF-8 and drops a
  leading byte-order mark. \<open>Blob_text s\<close> is the string read back from a file that holds
  the Blob of \<open>s\<close>.
\<close>

definition is_high_surrogate :: "jschar \<Rightarrow> bool" where
  "is_high_surrogate c \<longleftrightarrow> 0xD800 \<le> c \<and> c \<le> 0xDBFF"

definition is_low_surrogate :: "jschar \<Rightarrow> bool" where
  "is_low_surrogate c \<longleftrightarrow> 0xDC00 \<le> c \<and> c \<le> 0xDFFF"

fun to_scalar_values :: "jsstring \<Rightarrow> jsstring" where
  "to_scalar_values [] = []"
| "to_scalar_values [x] = (if is_high_surrogate x \<or> is_low_surrogate x then [0xFFFD] else [x])"
| "to_scalar_values (x # y # ys) =
     (if is_high_surrogate x \<and> is_low_surrogate y then x # y # to_scalar_values ys
      else if is_high_surrogate x \<or> is_low_surrogate x then 0xFFFD # to_scalar_values (y # ys)
      else x # to_scalar_values (y # ys))"

definition strip_bom :: "jsstring \<Rightarrow> jsstring" where
  "strip_bom s = (case s of [] \<Rightarrow> [] | x # xs \<Rightarrow> if x = 0xFEFF then xs else s)"

definition Blob_text :: "jsstring \<Rightarrow> jsstring" where
  "Blob_text s = strip_bom (to_scalar_values s)"

definition well_formed :: "jsstring \<Rightarrow> bool" where
  "well_formed s \<longleftrightarrow> to_scalar_values s = s"

section \<open>The list pages (\<^verbatim>\<open>app/amazing/page.tsx\<close> and the cloud page)\<close>

text \<open>
  \<^verbatim>\<open>interface AmazingItem { id; text; language; reps }\<close>. The upload page builds items
  without an id.
\<close>

record AmazingItem =
  item_id :: jsstring
  item_text :: jsstring
  item_language :: jsstring
  item_reps :: nat

record upload_item =
  up_text :: jsstring
  up_language :: jsstring
  up_reps :: "nat option"

definition content :: "AmazingItem \<Rightarrow> upload_item" where
  "content item =
     \<lparr>up_text = item_text item, up_language = item_language item,
      up_reps = Some (item_reps item)\<rparr>"

subsection \<open>\<^verbatim>\<open>handleSaveList\<close>\<close>

text \<open>The template literal of one line, and the text the handler puts into the Blob.\<close>

definition format_line :: "AmazingItem \<Rightarrow> jsstring" where
  "format_line item =
     item_text item @ js '' ('' @ item_language item @ js '') - ''
       @ Number_toString (item_reps item) @ js '' ''
       @ (if item_reps item = 1 then js ''time'' else js ''times'')"

definition textContent :: "AmazingItem list \<Rightarrow> jsstring" where
  "textContent items = Array_join [0xA] (map format_line items)"

text \<open>The contents of the downloaded file, as \<^verbatim>\<open>file.text()\<close> reads them back.\<close>

definition handleSaveList :: "AmazingItem list \<Rightarrow> jsstring" where
  "handleSaveList items = Blob_text (textContent items)"

subsection \<open>\<^verbatim>\<open>handleFileUpload\<close>\<close>

text \<open>
  \<^verbatim>\<open>/\(([^)]+)\)/\<close>, \<^verbatim>\<open>/(\d+)\s*(time|times)/i\<close> and
  \<^verbatim>\<open>/\s*\([^)]+\)\s*-\s*\d+\s*(time|times)\s*$/i\<close>.
\<close>

definition time_or_times :: node where
  "time_or_times = Alt (map chr_i ''time'') (map chr_i ''times'')"

definition language_re :: "node list" where
  "language_re = [chr CHR ''('', Grp 1 (one_or_more (not_chr CHR '')'')), chr CHR '')'']"

definition reps_re :: "node list" where
  "reps_re = [Grp 1 (one_or_more is_digit), Star is_space, Grp 2 [time_or_times]]"

definition clean_re :: "node list" where
  "clean_re =
     [Star is_space, chr CHR ''(''] @ one_or_more (not_chr CHR '')'') @ [chr CHR '')'',
      Star is_space, chr CHR ''-'', Star is_space] @ one_or_more is_digit @
     [Star is_space, Grp 1 [time_or_times], Star is_space, Eol]"

text \<open>The function mapped over the lines.\<close>

definition parse_line :: "jsstring \<Rightarrow> upload_item" where
  "parse_line line =
     (let languageMatch = String_match line language_re;
          repsMatch = String_match line reps_re;
          cleanLine = trim (String_replace line clean_re [])
      in \<lparr>up_text = cleanLine,
          up_language =
            (case languageMatch of Some m \<Rightarrow> group m 1 | None \<Rightarrow> js ''Auto-detected''),
          up_reps =
            (case repsMatch of Some m \<Rightarrow> parseInt (group m 1) | None \<Rightarrow> Some 1)\<rparr>)"

text \<open>
  The handler up to its request: the upload error it shows, or the items it posts to the
  batch endpoint. The argument is the text of the chosen file.
\<close>

datatype upload_error = EmptyFile | NoValidSentences

definition handleFileUpload :: "jsstring \<Rightarrow> upload_error + upload_item list" where
  "handleFileUpload file_text =
     (let lines = filter (\<lambda>line. length line > 0) (map trim (String_split 0xA file_text))
      in if length lines = 0 then Inl EmptyFile
         else
           let items = filter (\<lambda>item. length (up_text item) > 0) (map parse_line lines)
           in if length items = 0 then Inl NoValidSentences else Inr items)"

subsection \<open>Items that survive export and import\<close>

text \<open>
  An item is \<open>portable\<close> when its text is not empty, starts and ends with no white
  space, and holds no \<^verbatim>\<open>(\<close> and no line feed; its language is not empty and holds no
  \<^verbatim>\<open>)\<close> and no line feed; neither of the two holds a match of the count pattern
  \<^verbatim>\<open>/(\d+)\s*(time|times)/i\<close> or a surrogate outside a pair; and its count is below
  \<open>2^53\<close>.
\<close>

definition portable :: "AmazingItem \<Rightarrow> bool" where
  "portable item \<longleftrightarrow>
     item_text item \<noteq> []
     \<and> \<not> is_space (hd (item_text item)) \<and> \<not> is_space (last (item_text item))
     \<and> 0x28 \<notin> set (item_text item) \<and> 0xA \<notin> set (item_text item)
     \<and> String_match (item_text item) reps_re = None
     \<and> well_formed (item_text item)
     \<and> item_language item \<noteq> []
     \<and> 0x29 \<notin> set (item_language item) \<and> 0xA \<notin> set (item_language item)
     \<and> String_match (item_language item) reps_re = None
     \<and> well_formed (item_language item)
     \<and> item_reps item < 2 ^ 53"

section \<open>The Token Weighter of the word-cloud renderer\<close>

text \<open>
  Modelled from the spec: the renderer's weighted tokens. The Python module that renders
  the cloud (\<^verbatim>\<open>api-python/multilingual_wordcloud_sentences.py\<close>) is not among the
  sources; the specification describes a token as a text with a positive integer weight,
  and the collection the Token Weighter produces as ordered by first appearance, with
  distinct texts. A text is a sequence of code points.
\<close>

record WeightedToken =
  token_text :: "nat list"
  token_weight :: int

text \<open>
  Modelled from the spec: the truncation policy of the missing module, "keep the
  \<^verbatim>\<open>max_words\<close> tokens with the largest weight, ties broken by first-seen order". The
  tokens are sorted by descending weight with a stable sort, which leaves tokens of equal
  weight in the order of their first appearance, and the first \<^verbatim>\<open>max_words\<close> are kept.
\<close>

definition truncate_tokens :: "nat \<Rightarrow> WeightedToken list \<Rightarrow> WeightedToken list" where
  "truncate_tokens max_words tokens =
     take max_words (sort_key (\<lambda>t. - token_weight t) tokens)"

text \<open>
  Modelled from the spec: the Layout Engine of the missing module is given the collection
  after truncation. The engine itself is a parameter.
\<close>

definition layout_of :: "(WeightedToken list \<Rightarrow> 'l) \<Rightarrow> nat \<Rightarrow> WeightedToken list \<Rightarrow> 'l" where
  "layout_of engine max_words tokens = engine (truncate_tokens max_words tokens)"

text \<open>\<open>a\<close> was seen before \<open>b\<close>: \<open>b\<close> stands after the first \<open>a\<close> of the collection.\<close>

definition seen_before :: "'a list \<Rightarrow> 'a \<Rightarrow> 'a \<Rightarrow> bool" where
  "seen_before ts a b \<longleftrightarrow> b \<in> set (tl (dropWhile (\<lambda>x. x \<noteq> a) ts))"

section \<open>Notions of the proofs\<close>

text \<open>
  A continuation \<open>k\<close> rejects a class \<open>p\<close> when it fails on every input that starts
  with a code unit of \<open>p\<close>: a greedy repetition of \<open>p\<close> before such a continuation
  never gives a code unit back.
\<close>

definition rejects :: "(jschar \<Rightarrow> bool) \<Rightarrow> node list \<Rightarrow> bool" where
  "rejects p k \<longleftrightarrow> (\<forall>x xs c. p x \<longrightarrow> matcher k (x # xs) c = None)"

text \<open>
  The input starts with \<^verbatim>\<open>time\<close> in any case; a code unit can stand in \<^verbatim>\<open>time\<close> after
  its first letter; the count pattern matches at the start of the input.
\<close>

definition time_prefix :: "jsstring \<Rightarrow> bool" where
  "time_prefix r \<longleftrightarrow>
     (case r of
        a # b # c # d # rest \<Rightarrow>
          same_letter CHR ''t'' a \<and> same_letter CHR ''i'' b
          \<and> same_letter CHR ''m'' c \<and> same_letter CHR ''e'' d
      | _ \<Rightarrow> False)"

definition time_tail :: "jschar \<Rightarrow> bool" where
  "time_tail x \<longleftrightarrow>
     same_letter CHR ''i'' x \<or> same_letter CHR ''m'' x \<or> same_letter CHR ''e'' x"

definition counts_at :: "jsstring \<Rightarrow> bool" where
  "counts_at s \<longleftrightarrow>
     takeWhile is_digit s \<noteq> [] \<and> time_prefix (dropWhile is_space (dropWhile is_digit s))"

section \<open>Properties of the admin page\<close>

lemma validUsername_default: "validUsername no_environment = js ''login_admin''"
  by (simp add: validUsername_def no_environment_def or_default_def)

lemma validPassword_default: "validPassword no_environment = js ''amazing_password_123''"
  by (simp add: validPassword_def no_environment_def or_default_def)

lemma handleLogin_isAuthenticated:
  "isAuthenticated (handleLogin env s) =
     (isAuthenticated s \<or> (username s = validUsername env \<and> password s = validPassword env))"
  by (auto simp add: handleLogin_def Let_def)

lemma handleDeleteAll_requests:
  "fst (handleDeleteAll env confirmed fetch s) = (if confirmed then [delete_request env] else [])"
  by (simp add: handleDeleteAll_def Let_def split: fetch_result.splits bool.splits)

text \<open>
  C10. \<^verbatim>\<open>handleLogin\<close> leaves \<open>isAuthenticated\<close> true exactly when the entered user
  name and password equal the two client-side constants (from the login form, where the
  flag is false, and in general it never clears the flag); without the environment
  variables the constants are \<^verbatim>\<open>login_admin\<close> and \<^verbatim>\<open>amazing_password_123\<close>. The
  requests \<^verbatim>\<open>handleDeleteAll\<close> sends are the same for any two page states, whatever
  credentials were entered and whether or not the login succeeded: once confirmed, one
  DELETE to the items URL with no header and no body.
\<close>

theorem delete_all_independent_of_credentials:
  "isAuthenticated (handleLogin env (initial_delete_page\<lparr>username := u, password := p\<rparr>))
     = (u = validUsername env \<and> p = validPassword env)
   \<and> isAuthenticated (handleLogin env s)
     = (isAuthenticated s \<or> (username s = validUsername env \<and> password s = validPassword env))
   \<and> validUsername no_environment = js ''login_admin''
   \<and> validPassword no_environment = js ''amazing_password_123''
   \<and> fst (handleDeleteAll env confirmed fetch s) = fst (handleDeleteAll env confirmed fetch' s')
   \<and> fst (handleDeleteAll env confirmed fetch s)
     = (if confirmed
        then [\<lparr>req_url = AMAZING_API_URL (NODE_ENV env), req_method = js ''DELETE'',
               req_headers = [], req_body = None\<rparr>]
        else [])"
proof -
  have login: "isAuthenticated (handleLogin env (initial_delete_page\<lparr>username := u, password := p\<rparr>))
      = (u = validUsername env \<and> p = validPassword env)"
    by (simp add: handleLogin_isAuthenticated initial_delete_page_def)
  have same: "fst (handleDeleteAll env confirmed fetch s) = fst (handleDeleteAll env confirmed fetch' s')"
    by (simp only: handleDeleteAll_requests)
  have req: "fst (handleDeleteAll env confirmed fetch s)
     = (if confirmed
        then [\<lparr>req_url = AMAZING_API_URL (NODE_ENV env), req_method = js ''DELETE'',
               req_headers = [], req_body = None\<rparr>]
        else [])"
    by (simp only: handleDeleteAll_requests delete_request_def)
  from login handleLogin_isAuthenticated validUsername_default validPassword_default same req
  show ?thesis by blast
qed

section \<open>Properties of the runtime model\<close>

subsection \<open>Character classes and numbers\<close>

lemma same_letter_t: "same_letter CHR ''t'' x \<longleftrightarrow> x = 0x74 \<or> x = 0x54"
  by (auto simp: same_letter_def ascii_upper_def split: if_splits)
lemma same_letter_i: "same_letter CHR ''i'' x \<longleftrightarrow> x = 0x69 \<or> x = 0x49"
  by (auto simp: same_letter_def ascii_upper_def split: if_splits)
lemma same_letter_m: "same_letter CHR ''m'' x \<longleftrightarrow> x = 0x6D \<or> x = 0x4D"
  by (auto simp: same_letter_def ascii_upper_def split: if_splits)
lemma same_letter_e: "same_letter CHR ''e'' x \<longleftrightarrow> x = 0x65 \<or> x = 0x45"
  by (auto simp: same_letter_def ascii_upper_def split: if_splits)
lemma same_letter_s: "same_letter CHR ''s'' x \<longleftrightarrow> x = 0x73 \<or> x = 0x53"
  by (auto simp: same_letter_def ascii_upper_def split: if_splits)

lemma is_digit_not_space: "is_digit x \<Longrightarrow> \<not> is_space x"
  by (auto simp: is_digit_def is_space_def word_le_nat_alt)

lemma is_digit_unat: "is_digit x \<longleftrightarrow> 48 \<le> unat x \<and> unat x \<le> 57"
  by (simp add: is_digit_def word_le_nat_alt)

lemma unat_digit: "d < 10 \<Longrightarrow> unat (of_nat (48 + d) :: jschar) = 48 + d"
  by (simp only: unat_of_nat) simp

lemma is_digit_of_nat: "d < 10 \<Longrightarrow> is_digit (of_nat (48 + d))"
  by (simp only: is_digit_unat unat_digit) simp

lemma digit_value_of_nat: "d < 10 \<Longrightarrow> digit_value (of_nat (48 + d)) = d"
  by (simp only: digit_value_def unat_digit)

lemma Number_toString_digits: "list_all is_digit (Number_toString n)"
proof (induction n rule: Number_toString.induct)
  case (1 n)
  show ?case
  proof (cases "n < 10")
    case True
    then show ?thesis by (subst Number_toString.simps) (simp add: is_digit_of_nat del: of_nat_add)
  next
    case False
    with 1 show ?thesis
      by (subst Number_toString.simps) (simp add: is_digit_of_nat del: of_nat_add)
  qed
qed

lemma Number_toString_nonempty: "Number_toString n \<noteq> []"
  by (subst Number_toString.simps) simp

lemma decimal_snoc: "decimal (ds @ [d]) = 10 * decimal ds + digit_value d"
  by (simp add: decimal_def)

lemma decimal_Number_toString: "decimal (Number_toString n) = n"
proof (induction n rule: Number_toString.induct)
  case (1 n)
  show ?case
  proof (cases "n < 10")
    case True
    then show ?thesis
      by (subst Number_toString.simps) (simp add: decimal_def digit_value_of_nat del: of_nat_add)
  next
    case False
    with 1 show ?thesis
      by (subst Number_toString.simps) (simp add: decimal_snoc digit_value_of_nat del: of_nat_add)
  qed
qed

lemma parseInt_Number_toString: "parseInt (Number_toString n) = Some n"
proof -
  have tw: "takeWhile is_digit (Number_toString n) = Number_toString n"
    using Number_toString_digits [of n] by (simp add: list_all_iff)
  show ?thesis
    unfolding parseInt_def Let_def tw
    by (simp add: Number_toString_nonempty decimal_Number_toString)
qed

subsection \<open>The matcher\<close>

lemma rejects_Chr: "(\<And>x. p x \<Longrightarrow> \<not> q x) \<Longrightarrow> rejects p (Chr q # k)"
  by (simp add: rejects_def)

lemma rejects_Star: "(\<And>x. p x \<Longrightarrow> \<not> q x) \<Longrightarrow> rejects p k \<Longrightarrow> rejects p (Star q # k)"
  by (simp add: rejects_def)

lemma rejects_Mark: "rejects p k \<Longrightarrow> rejects p (Mark n s # k)"
  by (simp add: rejects_def)

lemma rejects_Eol: "rejects p (Eol # k)"
  by (simp add: rejects_def)

lemma rejects_Alt: "rejects p (a @ k) \<Longrightarrow> rejects p (b @ k) \<Longrightarrow> rejects p (Alt a b # k)"
  by (simp add: rejects_def)

lemma rejects_Grp: "(\<And>s. rejects p (a @ Mark n s # k)) \<Longrightarrow> rejects p (Grp n a # k)"
  by (simp add: rejects_def)

lemma star_run:
  assumes "rejects p k"
  shows "matcher (Star p # k) s c = matcher k (dropWhile p s) c"
proof (induction s)
  case Nil
  show ?case by simp
next
  case (Cons x xs)
  show ?case
  proof (cases "p x")
    case True
    with assms have "matcher k (x # xs) c = None" by (simp add: rejects_def)
    with True Cons show ?thesis
      by (cases "matcher k (dropWhile p xs) c") simp_all
  next
    case False
    then show ?thesis by simp
  qed
qed

lemma exec_hit:
  "matcher re s Map.empty = Some (rest, c) \<Longrightarrow>
   exec re pre s = Some \<lparr>match_before = pre, match_text = take (length s - length rest) s,
                match_after = rest, match_groups = c\<rparr>"
  by (subst exec.simps) simp

lemma exec_miss:
  "matcher re (x # xs) Map.empty = None \<Longrightarrow> exec re pre (x # xs) = exec re (pre @ [x]) xs"
  by (subst exec.simps) simp

lemma exec_None_suffix:
  "exec re pre s = None \<Longrightarrow> suffix t s \<Longrightarrow> matcher re t Map.empty = None"
proof (induction s arbitrary: pre)
  case Nil
  then show ?case by (subst (asm) exec.simps) (auto split: option.splits)
next
  case (Cons x xs)
  from Cons.prems(1) have m: "matcher re (x # xs) Map.empty = None"
    by (subst (asm) exec.simps) (auto split: option.splits)
  with Cons.prems(1) have "exec re (pre @ [x]) xs = None"
    by (simp add: exec_miss)
  with Cons.IH have "suffix t xs \<Longrightarrow> matcher re t Map.empty = None" by blast
  with Cons.prems(2) m show ?case by (auto simp: suffix_Cons)
qed

lemma exec_skip:
  assumes "\<And>t. suffix t T \<Longrightarrow> t \<noteq> [] \<Longrightarrow> matcher re (t @ R) Map.empty = None"
  shows "exec re pre (T @ R) = exec re (pre @ T) R"
  using assms
proof (induction T arbitrary: pre)
  case Nil
  show ?case by simp
next
  case (Cons x xs)
  have "matcher re ((x # xs) @ R) Map.empty = None"
    by (rule Cons.prems) simp_all
  then have "exec re pre ((x # xs) @ R) = exec re (pre @ [x]) (xs @ R)"
    by (simp add: exec_miss)
  also have "\<dots> = exec re ((pre @ [x]) @ xs) R"
    by (rule Cons.IH) (simp add: Cons.prems suffix_Cons)
  finally show ?case by simp
qed

lemma matcher_time_group:
  "matcher [Grp n [time_or_times]] r c =
     (if time_prefix r then Some (drop 4 r, c(n \<mapsto> take 4 r)) else None)"
proof (cases r)
  case Nil
  then show ?thesis by (simp add: time_or_times_def chr_i_def time_prefix_def)
next
  case r: (Cons a r1)
  show ?thesis
  proof (cases r1)
    case Nil
    with r show ?thesis by (simp add: time_or_times_def chr_i_def time_prefix_def)
  next
    case r1: (Cons b r2)
    show ?thesis
    proof (cases r2)
      case Nil
      with r r1 show ?thesis by (simp add: time_or_times_def chr_i_def time_prefix_def)
    next
      case r2: (Cons c r3)
      show ?thesis
      proof (cases r3)
        case Nil
        with r r1 r2 show ?thesis by (simp add: time_or_times_def chr_i_def time_prefix_def)
      next
        case (Cons d r4)
        with r r1 r2 show ?thesis
          by (simp add: time_or_times_def chr_i_def time_prefix_def)
      qed
    qed
  qed
qed

lemma rejects_time_group:
  assumes "\<And>x. p x \<Longrightarrow> \<not> same_letter CHR ''t'' x"
  shows "rejects p (Grp n [time_or_times] # k)"
  using assms by (simp add: rejects_def time_or_times_def chr_i_def)

lemma digit_not_t: "is_digit x \<Longrightarrow> \<not> same_letter CHR ''t'' x"
  by (auto simp: same_letter_t is_digit_def)

lemma space_not_t: "is_space x \<Longrightarrow> \<not> same_letter CHR ''t'' x"
  by (auto simp: same_letter_t is_space_def)

lemma matcher_reps_re:
  "matcher reps_re s c =
     (let ds = takeWhile is_digit s; r = dropWhile is_space (dropWhile is_digit s)
      in if ds \<noteq> [] \<and> time_prefix r then Some (drop 4 r, c(1 \<mapsto> ds, 2 \<mapsto> take 4 r)) else None)"
proof (cases s)
  case Nil
  then show ?thesis by (simp add: reps_re_def one_or_more_def)
next
  case (Cons x xs)
  show ?thesis
  proof (cases "is_digit x")
    case False
    with Cons show ?thesis by (simp add: reps_re_def one_or_more_def)
  next
    case True
    let ?k2 = "[Grp 2 [time_or_times]]"
    let ?k1 = "Mark 1 s # Star is_space # ?k2"
    have r2: "rejects is_space ?k2"
      by (rule rejects_time_group) (rule space_not_t)
    have r1: "rejects is_digit ?k1"
      by (intro rejects_Mark rejects_Star rejects_time_group is_digit_not_space digit_not_t)
    have len: "length s - length (dropWhile is_digit xs) = length (takeWhile is_digit s)"
      using True Cons length_append [of "takeWhile is_digit xs" "dropWhile is_digit xs"]
      by (simp del: length_append)
    have "matcher reps_re s c = matcher (Star is_digit # ?k1) xs c"
      using True Cons by (simp add: reps_re_def one_or_more_def)
    also have "\<dots> = matcher ?k1 (dropWhile is_digit xs) c"
      by (rule star_run [OF r1])
    also have "\<dots> = matcher (Star is_space # ?k2) (dropWhile is_digit xs) (c(1 \<mapsto> takeWhile is_digit s))"
      using len by (simp add: takeWhile_eq_take [symmetric])
    also have "\<dots> = matcher ?k2 (dropWhile is_space (dropWhile is_digit xs)) (c(1 \<mapsto> takeWhile is_digit s))"
      by (rule star_run [OF r2])
    also have "\<dots> = (if time_prefix (dropWhile is_space (dropWhile is_digit xs))
        then Some (drop 4 (dropWhile is_space (dropWhile is_digit xs)),
               (c(1 \<mapsto> takeWhile is_digit s))(2 \<mapsto> take 4 (dropWhile is_space (dropWhile is_digit xs))))
        else None)"
      by (rule matcher_time_group)
    finally show ?thesis
      using True Cons by (simp add: Let_def)
  qed
qed

lemma matcher_reps_re_None: "matcher reps_re s c = None \<longleftrightarrow> \<not> counts_at s"
  by (simp add: matcher_reps_re counts_at_def Let_def)

lemma time_prefix_append:
  assumes "time_prefix (v @ R)" "v \<noteq> []" "R \<noteq> []" "\<not> time_tail (hd R)"
  shows "time_prefix v"
proof -
  from assms(2) obtain a v1 where v: "v = a # v1" by (cases v) auto
  from assms(3) obtain r R' where R: "R = r # R'" by (cases R) auto
  show ?thesis
  proof (cases v1)
    case Nil
    with assms v R show ?thesis by (auto simp add: time_prefix_def time_tail_def split: list.splits)
  next
    case v1: (Cons b v2)
    show ?thesis
    proof (cases v2)
      case Nil
      with assms v v1 R show ?thesis by (auto simp add: time_prefix_def time_tail_def split: list.splits)
    next
      case v2: (Cons c v3)
      show ?thesis
      proof (cases v3)
        case Nil
        with assms v v1 v2 R show ?thesis by (auto simp add: time_prefix_def time_tail_def split: list.splits)
      next
        case (Cons d v4)
        with assms v v1 v2 show ?thesis by (simp add: time_prefix_def)
      qed
    qed
  qed
qed

lemma counts_at_append:
  assumes c: "counts_at (t @ R)"
    and R: "R \<noteq> []" "\<not> is_digit (hd R)" "\<not> time_tail (hd R)"
      "\<not> time_prefix (dropWhile is_space R)"
  shows "counts_at t"
proof (cases "\<forall>x\<in>set t. is_digit x")
  case True
  from R have dR: "dropWhile is_digit R = R" by (cases R) auto
  from True have "dropWhile is_digit (t @ R) = R"
    by (simp add: dropWhile_append2 dR)
  with c R show ?thesis by (simp add: counts_at_def)
next
  case False
  then have tw: "takeWhile is_digit (t @ R) = takeWhile is_digit t"
    and dw: "dropWhile is_digit (t @ R) = dropWhile is_digit t @ R"
    by (auto simp: takeWhile_append1 dropWhile_append1)
  let ?u = "dropWhile is_digit t"
  show ?thesis
  proof (cases "\<forall>x\<in>set ?u. is_space x")
    case True
    then have "dropWhile is_space (?u @ R) = dropWhile is_space R"
      by (simp add: dropWhile_append2)
    with c dw R show ?thesis by (simp add: counts_at_def)
  next
    case False
    then have ds: "dropWhile is_space (?u @ R) = dropWhile is_space ?u @ R"
      by (auto simp: dropWhile_append1)
    from False have ne: "dropWhile is_space ?u \<noteq> []"
      by auto
    from c have "time_prefix (dropWhile is_space ?u @ R)"
      by (simp add: counts_at_def dw ds)
    then have "time_prefix (dropWhile is_space ?u)"
      using ne R(1,3) by (rule time_prefix_append)
    with c tw show ?thesis by (simp add: counts_at_def)
  qed
qed

lemma exec_reps_skip:
  assumes none: "String_match T reps_re = None"
    and R: "R \<noteq> []" "\<not> is_digit (hd R)" "\<not> time_tail (hd R)"
      "\<not> time_prefix (dropWhile is_space R)"
  shows "exec reps_re pre (T @ R) = exec reps_re (pre @ T) R"
proof (rule exec_skip)
  fix t assume t: "suffix t T" "t \<noteq> []"
  from none t(1) have "matcher reps_re t Map.empty = None"
    unfolding String_match_def by (rule exec_None_suffix)
  then have "\<not> counts_at t" by (simp add: matcher_reps_re_None)
  with R have "\<not> counts_at (t @ R)" by (blast dest: counts_at_append)
  then show "matcher reps_re (t @ R) Map.empty = None" by (simp add: matcher_reps_re_None)
qed

section \<open>Export and import of the list\<close>

subsection \<open>The three patterns on an exported line\<close>

lemma not_chr_close: "not_chr CHR '')'' x \<longleftrightarrow> x \<noteq> 0x29"
  by (simp add: not_chr_def)

lemma dropWhile_run: "\<forall>x\<in>set xs. p x \<Longrightarrow> \<not> p y \<Longrightarrow> dropWhile p (xs @ y # ys) = y # ys"
  by (simp add: dropWhile_append2)

lemma takeWhile_run: "\<forall>x\<in>set xs. p x \<Longrightarrow> \<not> p y \<Longrightarrow> takeWhile p (xs @ y # ys) = xs"
  by (simp add: takeWhile_append2)

lemma exec_language_line:
  assumes T: "0x28 \<notin> set T" and G: "G \<noteq> []" "0x29 \<notin> set G"
  shows "exec language_re [] (T @ [0x20, 0x28] @ G @ 0x29 # rest)
         = Some \<lparr>match_before = T @ [0x20], match_text = 0x28 # G @ [0x29],
                 match_after = rest, match_groups = [1 \<mapsto> G]\<rparr>"
proof -
  let ?R = "[0x20, 0x28] @ G @ 0x29 # rest"
  let ?P = "not_chr CHR '')''"
  from G obtain g G' where g: "G = g # G'" by (cases G) auto
  have skip: "exec language_re [] (T @ ?R) = exec language_re ([] @ T) ?R"
  proof (rule exec_skip)
    fix t assume "suffix t T" "t \<noteq> []"
    then obtain x t' where t: "t = x # t'" and "x \<in> set T"
      by (cases t) (auto dest: set_mono_suffix)
    with T have "x \<noteq> 0x28" by auto
    with t show "matcher language_re (t @ ?R) Map.empty = None"
      by (simp add: language_re_def chr_def)
  qed
  have rej: "rejects ?P (Mark 1 s # [chr CHR '')''])" for s
    unfolding chr_def by (intro rejects_Mark rejects_Chr) (simp add: not_chr_def)
  have dw: "dropWhile ?P (G' @ 0x29 # rest) = 0x29 # rest"
    using G(2) g by (intro dropWhile_run) (auto simp: not_chr_close)
  have "matcher language_re (0x28 # G @ 0x29 # rest) Map.empty
        = matcher (Star ?P # Mark 1 (G @ 0x29 # rest) # [chr CHR '')'']) (G' @ 0x29 # rest) Map.empty"
    using g G(2) by (simp add: language_re_def one_or_more_def chr_def not_chr_close)
  also have "\<dots> = matcher (Mark 1 (G @ 0x29 # rest) # [chr CHR '')'']) (0x29 # rest) Map.empty"
    by (simp only: star_run [OF rej] dw)
  also have "\<dots> = Some (rest, [1 \<mapsto> G])"
    by (simp add: chr_def)
  finally have hit: "matcher language_re (0x28 # G @ 0x29 # rest) Map.empty = Some (rest, [1 \<mapsto> G])" .
  have miss: "matcher language_re (0x20 # 0x28 # G @ 0x29 # rest) Map.empty = None"
    by (simp add: language_re_def chr_def)
  have "exec language_re T ?R = exec language_re (T @ [0x20]) (0x28 # G @ 0x29 # rest)"
    using exec_miss [OF miss] by simp
  also have "\<dots> = Some \<lparr>match_before = T @ [0x20], match_text = 0x28 # G @ [0x29],
                 match_after = rest, match_groups = [1 \<mapsto> G]\<rparr>"
    by (simp add: exec_hit [OF hit])
  finally show ?thesis using skip by simp
qed

lemma time_tail_simps: "\<not> time_tail 0x20" "\<not> time_tail 0x29"
  by (simp_all add: time_tail_def same_letter_i same_letter_m same_letter_e)

lemma class_simps:
  "is_space 0x20" "\<not> is_space 0x28" "\<not> is_space 0x29" "\<not> is_space 0x2D" "\<not> is_space 0x74"
  "\<not> is_digit 0x20" "\<not> is_digit 0x28" "\<not> is_digit 0x29" "\<not> is_digit 0x2D" "\<not> is_digit 0x74"
  by (simp_all add: is_space_def is_digit_def)

lemma time_prefix_miss: "\<not> same_letter CHR ''t'' x \<Longrightarrow> \<not> time_prefix (x # xs)"
  by (simp add: time_prefix_def split: list.splits)

lemma matcher_reps_miss: "\<not> is_digit x \<Longrightarrow> matcher reps_re (x # xs) c = None"
  by (simp add: matcher_reps_re)

lemma exec_reps_line:
  assumes T: "String_match T reps_re = None" and G: "String_match G reps_re = None"
    and D: "D \<noteq> []" "\<forall>x\<in>set D. is_digit x"
    and W: "W = js ''time'' \<or> W = js ''times''"
  shows "\<exists>m. exec reps_re [] (T @ [0x20, 0x28] @ G @ [0x29, 0x20, 0x2D, 0x20] @ D @ 0x20 # W) = Some m
             \<and> match_groups m 1 = Some D"
proof -
  let ?R3 = "D @ 0x20 # W"
  let ?R2 = "[0x29, 0x20, 0x2D, 0x20] @ ?R3"
  let ?R1 = "[0x20, 0x28] @ G @ ?R2"
  have tpW: "time_prefix W" and dsW: "dropWhile is_space W = W"
    using W by (auto simp: js_def time_prefix_def same_letter_t same_letter_i same_letter_m
        same_letter_e is_space_def)
  have "exec reps_re [] (T @ ?R1) = exec reps_re ([] @ T) ?R1"
    using T by (rule exec_reps_skip)
      (simp_all add: class_simps time_tail_simps time_prefix_miss same_letter_t)
  also have "\<dots> = exec reps_re (T @ [0x20, 0x28]) (G @ ?R2)"
    by (simp add: exec_miss matcher_reps_miss class_simps)
  also have "\<dots> = exec reps_re ((T @ [0x20, 0x28]) @ G) ?R2"
    using G by (rule exec_reps_skip)
      (simp_all add: class_simps time_tail_simps time_prefix_miss same_letter_t)
  also have "\<dots> = exec reps_re (T @ [0x20, 0x28] @ G @ [0x29, 0x20, 0x2D, 0x20]) ?R3"
    by (simp add: exec_miss matcher_reps_miss class_simps)
  finally have e: "exec reps_re [] (T @ ?R1)
      = exec reps_re (T @ [0x20, 0x28] @ G @ [0x29, 0x20, 0x2D, 0x20]) ?R3" .
  have tw: "takeWhile is_digit ?R3 = D" and dw: "dropWhile is_digit ?R3 = 0x20 # W"
    using D(2) by (simp_all add: takeWhile_run dropWhile_run class_simps)
  have "matcher reps_re ?R3 Map.empty = Some (drop 4 W, [1 \<mapsto> D, 2 \<mapsto> take 4 W])"
    using D(1) tpW dsW by (simp add: matcher_reps_re tw dw class_simps Let_def)
  from exec_hit [OF this] e show ?thesis by simp
qed

lemma matcher_clean_tail:
  assumes W: "W = js ''time'' \<or> W = js ''times''"
  shows "\<exists>c'. matcher [Star is_space, Grp 1 [time_or_times], Star is_space, Eol] (0x20 # W) c = Some ([], c')"
  using W by (auto simp: js_def time_or_times_def chr_i_def class_simps same_letter_t same_letter_i same_letter_m
        same_letter_e same_letter_s is_space_def)

lemma exec_clean_line:
  assumes T: "0x28 \<notin> set T" "T = [] \<or> \<not> is_space (last T)"
    and G: "G \<noteq> []" "0x29 \<notin> set G"
    and D: "D \<noteq> []" "\<forall>x\<in>set D. is_digit x"
    and W: "W = js ''time'' \<or> W = js ''times''"
  shows "\<exists>m. exec clean_re [] (T @ [0x20, 0x28] @ G @ [0x29, 0x20, 0x2D, 0x20] @ D @ 0x20 # W) = Some m
             \<and> match_before m = T \<and> match_after m = []"
proof -
  let ?P = "not_chr CHR '')''"
  let ?E2 = "[Star is_space, Grp 1 [time_or_times], Star is_space, Eol]"
  let ?E4 = "Star is_space # Chr is_digit # Star is_digit # ?E2"
  let ?E6 = "Star is_space # chr CHR ''-'' # ?E4"
  let ?E8 = "Chr ?P # Star ?P # chr CHR '')'' # ?E6"
  let ?E9 = "chr CHR ''('' # ?E8"
  let ?R3 = "D @ 0x20 # W"
  let ?R2 = "[0x29, 0x20, 0x2D, 0x20] @ ?R3"
  let ?R1 = "[0x20, 0x28] @ G @ ?R2"
  have re: "clean_re = Star is_space # ?E9"
    by (simp add: clean_re_def one_or_more_def)
  from G obtain g G' where g: "G = g # G'" by (cases G) auto
  from D obtain d D' where d: "D = d # D'" by (cases D) auto
  have G': "\<forall>x\<in>set G'. ?P x" "\<not> ?P 0x29"
    using g G(2) by (auto simp: not_chr_close)
  have rej9: "rejects is_space ?E9"
    unfolding chr_def by (rule rejects_Chr) (auto simp: class_simps)
  have rej7: "rejects ?P (chr CHR '')'' # ?E6)"
    unfolding chr_def by (rule rejects_Chr) (simp add: not_chr_def)
  have rej5: "rejects is_space (chr CHR ''-'' # ?E4)"
    unfolding chr_def by (rule rejects_Chr) (auto simp: class_simps)
  have rej3: "rejects is_space (Chr is_digit # Star is_digit # ?E2)"
    by (rule rejects_Chr) (auto dest: is_digit_not_space)
  have rej2: "rejects is_digit ?E2"
    by (intro rejects_Star rejects_time_group is_digit_not_space digit_not_t)
  have skip: "exec clean_re [] (T @ ?R1) = exec clean_re ([] @ T) ?R1"
  proof (rule exec_skip)
    fix t assume t: "suffix t T" "t \<noteq> []"
    then have "T \<noteq> []" by auto
    with T(2) t have last: "\<not> is_space (last t)"
      by (auto simp: suffix_def)
    with t(2) have "\<exists>x\<in>set t. \<not> is_space x"
      using last_in_set by blast
    then have dw: "dropWhile is_space (t @ ?R1) = dropWhile is_space t @ ?R1"
      and ne: "dropWhile is_space t \<noteq> []"
      by (auto simp: dropWhile_append1)
    then obtain x u where u: "dropWhile is_space t = x # u"
      by (cases "dropWhile is_space t") auto
    then have "x \<in> set t"
      by (metis list.set_intros(1) set_dropWhileD)
    with t(1) T(1) have "x \<noteq> 0x28"
      by (auto dest: set_mono_suffix)
    then have "matcher ?E9 (x # u @ ?R1) Map.empty = None"
      by (simp add: chr_def)
    then show "matcher clean_re (t @ ?R1) Map.empty = None"
      unfolding re star_run [OF rej9] dw u by simp
  qed
  obtain c' where tail: "matcher ?E2 (0x20 # W) Map.empty = Some ([], c')"
    using matcher_clean_tail [OF W] by blast
  have "matcher clean_re ?R1 Map.empty = matcher ?E9 (dropWhile is_space ?R1) Map.empty"
    unfolding re by (rule star_run [OF rej9])
  also have "\<dots> = matcher (Star ?P # chr CHR '')'' # ?E6) (G' @ ?R2) Map.empty"
    using g G(2) by (simp add: class_simps chr_def not_chr_close)
  also have "\<dots> = matcher (chr CHR '')'' # ?E6) (dropWhile ?P (G' @ ?R2)) Map.empty"
    by (rule star_run [OF rej7])
  also have "dropWhile ?P (G' @ ?R2) = ?R2"
    using G' by (simp add: dropWhile_run)
  also have "matcher (chr CHR '')'' # ?E6) ?R2 Map.empty = matcher ?E6 ([0x20, 0x2D, 0x20] @ ?R3) Map.empty"
    by (simp add: chr_def)
  also have "\<dots> = matcher (chr CHR ''-'' # ?E4) (dropWhile is_space ([0x20, 0x2D, 0x20] @ ?R3)) Map.empty"
    by (rule star_run [OF rej5])
  also have "\<dots> = matcher ?E4 (0x20 # ?R3) Map.empty"
    by (simp add: chr_def class_simps)
  also have "\<dots> = matcher (Chr is_digit # Star is_digit # ?E2) (dropWhile is_space (0x20 # ?R3)) Map.empty"
    by (rule star_run [OF rej3])
  also have "\<dots> = matcher (Star is_digit # ?E2) (D' @ 0x20 # W) Map.empty"
    using d D(2) by (simp add: class_simps is_digit_not_space)
  also have "\<dots> = matcher ?E2 (dropWhile is_digit (D' @ 0x20 # W)) Map.empty"
    by (rule star_run [OF rej2])
  also have "dropWhile is_digit (D' @ 0x20 # W) = 0x20 # W"
    using d D(2) by (simp add: dropWhile_run class_simps)
  finally have "matcher clean_re ?R1 Map.empty = Some ([], c')"
    using tail by simp
  from exec_hit [OF this] skip show ?thesis by simp
qed

subsection \<open>One line\<close>

lemma format_line_shape:
  "format_line item =
     item_text item @ [0x20, 0x28] @ item_language item @ [0x29, 0x20, 0x2D, 0x20]
       @ Number_toString (item_reps item) @ 0x20 # (if item_reps item = 1 then js ''time'' else js ''times'')"
  by (simp add: format_line_def js_def)

lemma Number_toString_all: "\<forall>x\<in>set (Number_toString n). is_digit x"
  using Number_toString_digits [of n] by (simp add: list_all_iff)

lemma dropWhile_id: "s \<noteq> [] \<Longrightarrow> \<not> p (hd s) \<Longrightarrow> dropWhile p s = s"
  by (cases s) simp_all

lemma trim_id:
  assumes "s \<noteq> []" "\<not> is_space (hd s)" "\<not> is_space (last s)"
  shows "trim s = s"
proof -
  have "dropWhile is_space (rev s) = rev s"
    using assms by (intro dropWhile_id) (simp_all add: hd_rev)
  with assms show ?thesis by (simp add: trim_def dropWhile_id)
qed

lemma parse_format_line:
  assumes "portable item"
  shows "parse_line (format_line item) = content item"
proof -
  let ?T = "item_text item" and ?G = "item_language item"
  let ?D = "Number_toString (item_reps item)"
  let ?W = "if item_reps item = 1 then js ''time'' else js ''times''"
  have W: "?W = js ''time'' \<or> ?W = js ''times''" by simp
  from assms have T: "0x28 \<notin> set ?T" "?T = [] \<or> \<not> is_space (last ?T)"
      "String_match ?T reps_re = None" "?T \<noteq> []" "\<not> is_space (hd ?T)" "\<not> is_space (last ?T)"
    and G: "?G \<noteq> []" "0x29 \<notin> set ?G" "String_match ?G reps_re = None"
    by (simp_all add: portable_def)
  have lang: "String_match (format_line item) language_re
      = Some \<lparr>match_before = ?T @ [0x20], match_text = 0x28 # ?G @ [0x29],
                 match_after = [0x20, 0x2D, 0x20] @ ?D @ 0x20 # ?W, match_groups = [1 \<mapsto> ?G]\<rparr>"
    unfolding String_match_def format_line_shape
    using exec_language_line [OF T(1) G(1,2), of "[0x20, 0x2D, 0x20] @ ?D @ 0x20 # ?W"] by simp
  obtain m where reps: "String_match (format_line item) reps_re = Some m"
      and m: "match_groups m 1 = Some ?D"
    unfolding String_match_def format_line_shape
    using exec_reps_line [OF T(3) G(3) Number_toString_nonempty Number_toString_all W] by blast
  obtain m' where clean: "exec clean_re [] (format_line item) = Some m'"
      and m': "match_before m' = ?T" "match_after m' = []"
    unfolding format_line_shape
    using exec_clean_line [OF T(1,2) G(1,2) Number_toString_nonempty Number_toString_all W] by blast
  have "trim (String_replace (format_line item) clean_re []) = ?T"
    using T(4-6) by (simp add: String_replace_def clean m' trim_id)
  moreover have "group m 1 = ?D"
    using m by (simp add: group_def)
  ultimately show ?thesis
    by (simp add: parse_line_def Let_def lang reps group_def content_def parseInt_Number_toString)
qed

subsection \<open>The file\<close>

lemma replacement_not_surrogate:
  "\<not> is_high_surrogate 0xFFFD" "\<not> is_low_surrogate 0xFFFD"
  by (simp_all add: is_high_surrogate_def is_low_surrogate_def)

lemma to_scalar_values_append:
  "to_scalar_values a = a \<Longrightarrow> to_scalar_values (a @ b) = a @ to_scalar_values b"
proof (induction a rule: to_scalar_values.induct)
  case 1
  show ?case by simp
next
  case (2 x)
  then have "\<not> is_high_surrogate x" "\<not> is_low_surrogate x"
    using replacement_not_surrogate by (auto split: if_splits)
  then show ?case by (cases b) simp_all
next
  case (3 x y ys)
  show ?case
  proof (cases "is_high_surrogate x \<and> is_low_surrogate y")
    case True
    with 3 show ?thesis by simp
  next
    case False
    with "3.prems" have x: "\<not> is_high_surrogate x" "\<not> is_low_surrogate x"
      using replacement_not_surrogate by (auto split: if_splits)
    with False "3.prems" have "to_scalar_values (y # ys) = y # ys" by simp
    with "3.IH"(3) False x have "to_scalar_values ((y # ys) @ b) = (y # ys) @ to_scalar_values b"
      by simp
    with x show ?thesis by simp
  qed
qed

lemma well_formed_append: "well_formed a \<Longrightarrow> well_formed b \<Longrightarrow> well_formed (a @ b)"
  by (simp add: well_formed_def to_scalar_values_append)

lemma well_formed_no_surrogate:
  "\<forall>x\<in>set s. \<not> is_high_surrogate x \<and> \<not> is_low_surrogate x \<Longrightarrow> well_formed s"
  unfolding well_formed_def
  by (induction s rule: to_scalar_values.induct) simp_all

lemma digit_not_surrogate: "is_digit x \<Longrightarrow> \<not> is_high_surrogate x \<and> \<not> is_low_surrogate x"
  by (auto simp: is_digit_def is_high_surrogate_def is_low_surrogate_def word_le_nat_alt)

lemma well_formed_Number_toString: "well_formed (Number_toString n)"
  using Number_toString_all [of n] by (intro well_formed_no_surrogate) (auto dest: digit_not_surrogate)

lemma well_formed_format_line:
  assumes "portable item"
  shows "well_formed (format_line item)"
proof -
  have lit: "well_formed [0x20, 0x28]" "well_formed [0x29, 0x20, 0x2D, 0x20]"
    "well_formed (0x20 # (if item_reps item = 1 then js ''time'' else js ''times''))"
    by (simp_all add: well_formed_def js_def is_high_surrogate_def is_low_surrogate_def)
  from assms have "well_formed (item_text item)" "well_formed (item_language item)"
    by (simp_all add: portable_def)
  with lit show ?thesis
    unfolding format_line_shape
    by (intro well_formed_append well_formed_Number_toString)
qed

lemma well_formed_join:
  "\<forall>l\<in>set ls. well_formed l \<Longrightarrow> well_formed sep \<Longrightarrow> well_formed (Array_join sep ls)"
  by (induction sep ls rule: Array_join.induct)
    (simp_all add: well_formed_append, simp add: well_formed_def)

lemma split_no_sep: "sep \<notin> set l \<Longrightarrow> String_split sep l = [l]"
  by (induction l) auto

lemma split_append_sep:
  "sep \<notin> set l \<Longrightarrow> String_split sep (l @ sep # rest) = l # String_split sep rest"
  by (induction l) auto

lemma split_join:
  "ls \<noteq> [] \<Longrightarrow> \<forall>l\<in>set ls. sep \<notin> set l \<Longrightarrow> String_split sep (Array_join [sep] ls) = ls"
  by (induction "[sep]" ls rule: Array_join.induct)
    (simp_all add: split_no_sep split_append_sep)

lemma digit_not_newline: "is_digit x \<Longrightarrow> x \<noteq> 0xA"
  by (auto simp: is_digit_def)

lemma format_line_no_newline:
  assumes "portable item"
  shows "0xA \<notin> set (format_line item)"
  using assms Number_toString_all [of "item_reps item"]
  by (auto simp: format_line_shape portable_def js_def dest: digit_not_newline)

lemma format_line_trimmed:
  assumes "portable item"
  shows "trim (format_line item) = format_line item"
proof (rule trim_id)
  show "format_line item \<noteq> []" by (simp add: format_line_shape)
  show "\<not> is_space (hd (format_line item))"
    using assms by (simp add: format_line_shape portable_def)
  show "\<not> is_space (last (format_line item))"
    by (simp add: format_line_shape js_def is_space_def)
qed

lemma textContent_head:
  assumes "items \<noteq> []" "\<forall>item\<in>set items. portable item"
  shows "textContent items \<noteq> [] \<and> \<not> is_space (hd (textContent items))"
proof -
  from assms obtain i rest where items: "items = i # rest" and i: "portable i"
    by (cases items) auto
  then have "format_line i \<noteq> []" "\<not> is_space (hd (format_line i))"
    by (simp_all add: format_line_shape portable_def)
  then show ?thesis
    unfolding textContent_def items by (cases rest) simp_all
qed

lemma handleSaveList_portable:
  assumes "items \<noteq> []" "\<forall>item\<in>set items. portable item"
  shows "handleSaveList items = textContent items"
proof -
  have "well_formed [0xA]"
    by (simp add: well_formed_def is_high_surrogate_def is_low_surrogate_def)
  moreover have "\<forall>l\<in>set (map format_line items). well_formed l"
    using assms(2) by (simp add: well_formed_format_line)
  ultimately have "well_formed (textContent items)"
    unfolding textContent_def by (intro well_formed_join)
  moreover have "strip_bom (textContent items) = textContent items"
    using textContent_head [OF assms] by (cases "textContent items") (auto simp: strip_bom_def is_space_def)
  ultimately show ?thesis
    by (simp add: handleSaveList_def Blob_text_def well_formed_def)
qed

text \<open>
  C9, as it holds. For a list of items that is not empty and whose items are all
  \<open>portable\<close>, the file \<^verbatim>\<open>handleSaveList\<close> writes is read back by
  \<^verbatim>\<open>handleFileUpload\<close> as exactly the items' texts, languages and counts, in order:
  every exported line is parsed into the text, language and count it was built from.
\<close>

theorem export_import_round_trip:
  assumes "items \<noteq> []" "\<forall>item\<in>set items. portable item"
  shows "handleFileUpload (handleSaveList items) = Inr (map content items)"
proof -
  let ?lines = "map format_line items"
  have split: "String_split 0xA (textContent items) = ?lines"
    unfolding textContent_def using assms
    by (intro split_join) (simp_all add: format_line_no_newline)
  have trim: "map trim ?lines = ?lines"
    using assms(2) by (simp add: format_line_trimmed)
  have ne: "filter (\<lambda>line. length line > 0) ?lines = ?lines"
    by (simp add: format_line_shape)
  have parse: "map parse_line ?lines = map content items"
    using assms(2) by (simp add: parse_format_line)
  have keep: "filter (\<lambda>item. length (up_text item) > 0) (map content items) = map content items"
    using assms(2) by (simp add: content_def portable_def)
  show ?thesis
    unfolding handleFileUpload_def handleSaveList_portable [OF assms] split trim ne parse keep Let_def
    using assms(1) by simp
qed

text \<open>An English and a Hebrew item, exported and read back.\<close>

theorem export_import_round_trip_witness:
  "list_all portable
     [\<lparr>item_id = js ''1'', item_text = js ''You are amazing!'',
       item_language = js ''English'', item_reps = 3\<rparr>,
      \<lparr>item_id = js ''2'',
       item_text = [0x5D0, 0x5EA, 0x5D4, 0x20, 0x5DE, 0x5D3, 0x5D4, 0x5D9, 0x5DD],
       item_language = js ''Hebrew'', item_reps = 1\<rparr>]
   \<and> handleFileUpload (handleSaveList
     [\<lparr>item_id = js ''1'', item_text = js ''You are amazing!'',
       item_language = js ''English'', item_reps = 3\<rparr>,
      \<lparr>item_id = js ''2'',
       item_text = [0x5D0, 0x5EA, 0x5D4, 0x20, 0x5DE, 0x5D3, 0x5D4, 0x5D9, 0x5DD],
       item_language = js ''Hebrew'', item_reps = 1\<rparr>])
     = Inr [\<lparr>up_text = js ''You are amazing!'', up_language = js ''English'',
             up_reps = Some 3\<rparr>,
            \<lparr>up_text = [0x5D0, 0x5EA, 0x5D4, 0x20, 0x5DE, 0x5D3, 0x5D4, 0x5D9, 0x5DD],
             up_language = js ''Hebrew'', up_reps = Some 1\<rparr>]"
proof -
  let ?a = "\<lparr>item_id = js ''1'', item_text = js ''You are amazing!'',
       item_language = js ''English'', item_reps = 3\<rparr>"
  let ?b = "\<lparr>item_id = js ''2'',
       item_text = [0x5D0, 0x5EA, 0x5D4, 0x20, 0x5DE, 0x5D3, 0x5D4, 0x5D9, 0x5DD],
       item_language = js ''Hebrew'', item_reps = 1\<rparr>"
  have m: "String_match (js ''You are amazing!'') reps_re = None"
      "String_match (js ''English'') reps_re = None"
      "String_match [0x5D0, 0x5EA, 0x5D4, 0x20, 0x5DE, 0x5D3, 0x5D4, 0x5D9, 0x5DD] reps_re = None"
      "String_match (js ''Hebrew'') reps_re = None"
    by code_simp+
  have a: "portable ?a"
    by (simp add: portable_def m) (simp add: js_def is_space_def well_formed_def
        is_high_surrogate_def is_low_surrogate_def)
  have b: "portable ?b"
    by (simp add: portable_def m) (simp add: js_def is_space_def well_formed_def
        is_high_surrogate_def is_low_surrogate_def)
  from a b have all: "\<forall>item\<in>set [?a, ?b]. portable item" by simp
  have "[?a, ?b] \<noteq> []" by simp
  from export_import_round_trip [OF this all] a b show ?thesis
    by (simp add: content_def)
qed

text \<open>
  The claim as stated, for every list of items, fails on a text that starts with a space:
  the upload trims each line, so the text comes back without it.
\<close>

theorem export_import_counterexample:
  "handleFileUpload (handleSaveList
     [\<lparr>item_id = js ''1'', item_text = js '' You are amazing!'',
       item_language = js ''English'', item_reps = 3\<rparr>])
     = Inr [\<lparr>up_text = js ''You are amazing!'', up_language = js ''English'',
             up_reps = Some 3\<rparr>]
   \<and> handleFileUpload (handleSaveList
     [\<lparr>item_id = js ''1'', item_text = js '' You are amazing!'',
       item_language = js ''English'', item_reps = 3\<rparr>])
     \<noteq> Inr (map content
         [\<lparr>item_id = js ''1'', item_text = js '' You are amazing!'',
           item_language = js ''English'', item_reps = 3\<rparr>])"
proof -
  have "handleFileUpload (handleSaveList
     [\<lparr>item_id = js ''1'', item_text = js '' You are amazing!'',
       item_language = js ''English'', item_reps = 3\<rparr>])
     = Inr [\<lparr>up_text = js ''You are amazing!'', up_language = js ''English'',
             up_reps = Some 3\<rparr>]"
    by code_simp
  then show ?thesis by (simp add: content_def js_def)
qed

subsection \<open>What the line format does not carry\<close>

text \<open>
  Each condition of \<open>portable\<close> excludes inputs on which the export is not read back:
  an empty list, a blank text, a count phrase in the text, an empty language, a closing
  parenthesis in the language, a line feed and a surrogate outside a pair.
\<close>

lemma empty_list_is_refused: "handleFileUpload (handleSaveList []) = Inl EmptyFile"
  by code_simp

lemma blank_text_is_dropped:
  "handleFileUpload (handleSaveList
     [\<lparr>item_id = js ''1'', item_text = js '' '', item_language = js ''English'', item_reps = 2\<rparr>])
   = Inl NoValidSentences"
  by code_simp

lemma count_phrase_in_text:
  "handleFileUpload (handleSaveList
     [\<lparr>item_id = js ''1'', item_text = js ''3 times a day'', item_language = js ''English'', item_reps = 1\<rparr>])
   = Inr [\<lparr>up_text = js ''3 times a day'', up_language = js ''English'', up_reps = Some 3\<rparr>]"
  by code_simp

lemma empty_language:
  "handleFileUpload (handleSaveList
     [\<lparr>item_id = js ''1'', item_text = js ''Hi'', item_language = [], item_reps = 2\<rparr>])
   = Inr [\<lparr>up_text = js ''Hi () - 2 times'', up_language = js ''Auto-detected'', up_reps = Some 2\<rparr>]"
  by code_simp

lemma parenthesis_in_language:
  "handleFileUpload (handleSaveList
     [\<lparr>item_id = js ''1'', item_text = js ''Hi'', item_language = js ''a)b'', item_reps = 2\<rparr>])
   = Inr [\<lparr>up_text = js ''Hi (a)b) - 2 times'', up_language = js ''a'', up_reps = Some 2\<rparr>]"
  by code_simp

lemma line_feed_in_text:
  "handleFileUpload (handleSaveList
     [\<lparr>item_id = js ''1'', item_text = [0x48, 0xA, 0x69], item_language = js ''English'', item_reps = 2\<rparr>])
   = Inr [\<lparr>up_text = js ''H'', up_language = js ''Auto-detected'', up_reps = Some 1\<rparr>,
          \<lparr>up_text = js ''i'', up_language = js ''English'', up_reps = Some 2\<rparr>]"
  by code_simp

lemma lone_surrogate_in_text:
  "handleFileUpload (handleSaveList
     [\<lparr>item_id = js ''1'', item_text = [0x48, 0xD83D], item_language = js ''English'', item_reps = 2\<rparr>])
   = Inr [\<lparr>up_text = [0x48, 0xFFFD], up_language = js ''English'', up_reps = Some 2\<rparr>]"
  by code_simp

text \<open>
  A text with a parenthesis of its own keeps its text and count, and loses its language
  to the first parenthesis of the line: the language pattern is not anchored, the
  pattern that cleans the line is.
\<close>

lemma parse_line_parenthesis:
  "parse_line (format_line
     \<lparr>item_id = js ''1'', item_text = js ''Hi (there)'', item_language = js ''English'',
      item_reps = 1\<rparr>)
   = \<lparr>up_text = js ''Hi (there)'', up_language = js ''there'', up_reps = Some 1\<rparr>"
  by code_simp

section \<open>Truncation of the token collection\<close>

lemma filter_append_split:
  "filter P ts = A @ B \<Longrightarrow> \<exists>xs ys. ts = xs @ ys \<and> filter P xs = A \<and> filter P ys = B"
proof (induction ts arbitrary: A)
  case Nil
  then show ?case by simp
next
  case (Cons t ts)
  show ?case
  proof (cases "P t")
    case False
    with Cons.prems have "filter P ts = A @ B" by simp
    from Cons.IH [OF this] obtain xs ys where "ts = xs @ ys" "filter P xs = A" "filter P ys = B"
      by blast
    with False have "t # ts = (t # xs) @ ys \<and> filter P (t # xs) = A \<and> filter P ys = B" by simp
    then show ?thesis by blast
  next
    case True
    show ?thesis
    proof (cases A)
      case Nil
      with Cons.prems have "t # ts = [] @ (t # ts) \<and> filter P [] = A \<and> filter P (t # ts) = B"
        by simp
      then show ?thesis by blast
    next
      case (Cons a A')
      with True Cons.prems have "filter P ts = A' @ B" and a: "a = t" by simp_all
      from Cons.IH [OF this(1)] obtain xs ys where "ts = xs @ ys" "filter P xs = A'" "filter P ys = B"
        by blast
      with True Cons a have "t # ts = (t # xs) @ ys \<and> filter P (t # xs) = A \<and> filter P ys = B"
        by simp
      then show ?thesis by blast
    qed
  qed
qed

lemma seen_before_append:
  assumes "a \<in> set xs" "b \<in> set ys"
  shows "seen_before (xs @ ys) a b"
proof -
  from assms(1) have "dropWhile (\<lambda>x. x \<noteq> a) (xs @ ys) = dropWhile (\<lambda>x. x \<noteq> a) xs @ ys"
    by (simp add: dropWhile_append1)
  moreover from assms(1) have "dropWhile (\<lambda>x. x \<noteq> a) xs \<noteq> []"
    by (simp add: dropWhile_eq_Nil_conv)
  ultimately show ?thesis
    using assms(2) by (cases "dropWhile (\<lambda>x. x \<noteq> a) xs") (simp_all add: seen_before_def)
qed

lemma truncate_dominates:
  assumes k: "k \<in> set (truncate_tokens m ts)" and d: "d \<in> set ts - set (truncate_tokens m ts)"
  shows "token_weight d < token_weight k \<or> (token_weight d = token_weight k \<and> seen_before ts k d)"
proof -
  let ?f = "\<lambda>t. - token_weight t"
  let ?S = "sort_key ?f ts"
  have "set ?S = set (take m ?S) \<union> set (drop m ?S)"
    by (simp only: set_append [symmetric] append_take_drop_id)
  with d have dd: "d \<in> set (drop m ?S)"
    by (auto simp: truncate_tokens_def)
  from k have kk: "k \<in> set (take m ?S)" by (simp add: truncate_tokens_def)
  have "sorted (map ?f (take m ?S) @ map ?f (drop m ?S))"
    by (simp only: map_append [symmetric] append_take_drop_id sorted_sort_key)
  then have "\<forall>x\<in>set (map ?f (take m ?S)). \<forall>y\<in>set (map ?f (drop m ?S)). x \<le> y"
    by (simp only: sorted_append) blast
  with kk dd have le: "?f k \<le> ?f d"
    by simp
  show ?thesis
  proof (cases "token_weight d = token_weight k")
    case False
    with le show ?thesis by simp
  next
    case True
    let ?P = "\<lambda>y. ?f y = ?f k"
    have "filter ?P ts = filter ?P ?S" by (simp only: sort_key_stable)
    also have "\<dots> = filter ?P (take m ?S) @ filter ?P (drop m ?S)"
      by (simp only: filter_append [symmetric] append_take_drop_id)
    finally obtain xs ys where ts: "ts = xs @ ys" and "filter ?P xs = filter ?P (take m ?S)"
        "filter ?P ys = filter ?P (drop m ?S)"
      using filter_append_split by blast
    with kk dd True have "k \<in> set (filter ?P xs)" "d \<in> set (filter ?P ys)" by simp_all
    then have "k \<in> set xs" "d \<in> set ys" by simp_all
    then have "seen_before ts k d" unfolding ts by (rule seen_before_append)
    with True show ?thesis by simp
  qed
qed

lemma truncate_idem: "truncate_tokens m (truncate_tokens m ts) = truncate_tokens m ts"
proof -
  let ?f = "\<lambda>t. - token_weight t"
  have "sorted (take m (map ?f (sort_key ?f ts)))"
    by (rule sorted_wrt_take) simp
  then have "sorted (map ?f (take m (sort_key ?f ts)))"
    by (simp only: take_map)
  then have "sort_key ?f (take m (sort_key ?f ts)) = take m (sort_key ?f ts)"
    by (rule sort_key_id_if_sorted)
  then show ?thesis by (simp add: truncate_tokens_def)
qed

text \<open>
  C5, on the truncation modelled from the specification. For a collection of tokens with
  distinct texts that holds more than \<^verbatim>\<open>max_words\<close> tokens (whatever the limit; its
  default is 100), exactly \<^verbatim>\<open>max_words\<close> tokens are kept, all of them tokens of the
  collection; every kept token is heavier than every discarded one, or as heavy and seen
  before it; and the layout of the collection is the layout of its kept tokens alone.
\<close>

theorem truncation_keeps_heaviest:
  assumes "distinct (map token_text ts)" "max_words < length ts"
  shows "length (truncate_tokens max_words ts) = max_words
    \<and> distinct (map token_text (truncate_tokens max_words ts))
    \<and> set (truncate_tokens max_words ts) \<subseteq> set ts
    \<and> (\<forall>k\<in>set (truncate_tokens max_words ts). \<forall>d\<in>set ts - set (truncate_tokens max_words ts).
          token_weight d < token_weight k
          \<or> (token_weight d = token_weight k \<and> seen_before ts k d))
    \<and> layout_of engine max_words (truncate_tokens max_words ts) = layout_of engine max_words ts"
proof -
  have "length (truncate_tokens max_words ts) = max_words"
    using assms(2) by (simp add: truncate_tokens_def)
  moreover have sub: "set (truncate_tokens max_words ts) \<subseteq> set ts"
    unfolding truncate_tokens_def using set_take_subset [of max_words "sort_key (\<lambda>t. - token_weight t) ts"]
    by simp
  moreover have "distinct (map token_text (truncate_tokens max_words ts))"
  proof -
    have "distinct (map token_text (sort_key (\<lambda>t. - token_weight t) ts))"
      using assms(1) by (simp add: distinct_map)
    then show ?thesis
      unfolding truncate_tokens_def by (simp add: take_map [symmetric] distinct_take)
  qed
  moreover have "\<forall>k\<in>set (truncate_tokens max_words ts). \<forall>d\<in>set ts - set (truncate_tokens max_words ts).
          token_weight d < token_weight k
          \<or> (token_weight d = token_weight k \<and> seen_before ts k d)"
    using truncate_dominates by blast
  moreover have "layout_of engine max_words (truncate_tokens max_words ts) = layout_of engine max_words ts"
    by (simp add: layout_of_def truncate_idem)
  ultimately show ?thesis by blast
qed

text \<open>Three tokens, two of them of weight 5, and room for two.\<close>

theorem truncation_keeps_heaviest_witness:
  "distinct (map token_text
      [\<lparr>token_text = [97], token_weight = 5\<rparr>, \<lparr>token_text = [98], token_weight = 7\<rparr>,
       \<lparr>token_text = [99], token_weight = 5\<rparr>])
   \<and> 2 < length
      [\<lparr>token_text = [97], token_weight = 5\<rparr>, \<lparr>token_text = [98], token_weight = 7\<rparr>,
       \<lparr>token_text = [99], token_weight = 5\<rparr>]
   \<and> length (truncate_tokens 2
      [\<lparr>token_text = [97], token_weight = 5\<rparr>, \<lparr>token_text = [98], token_weight = 7\<rparr>,
       \<lparr>token_text = [99], token_weight = 5\<rparr>]) = 2
   \<and> truncate_tokens 2
      [\<lparr>token_text = [97], token_weight = 5\<rparr>, \<lparr>token_text = [98], token_weight = 7\<rparr>,
       \<lparr>token_text = [99], token_weight = 5\<rparr>]
     = [\<lparr>token_text = [98], token_weight = 7\<rparr>, \<lparr>token_text = [97], token_weight = 5\<rparr>]"
proof -
  let ?ts = "[\<lparr>token_text = [97], token_weight = 5\<rparr>, \<lparr>token_text = [98], token_weight = 7\<rparr>,
       \<lparr>token_text = [99], token_weight = 5\<rparr>]"
  have d: "distinct (map token_text ?ts)" by simp
  have l: "2 < length ?ts" by simp
  from truncation_keeps_heaviest [OF d l, of "\<lambda>x. x"]
  have "length (truncate_tokens 2 ?ts) = 2" by blast
  moreover have "truncate_tokens 2 ?ts
     = [\<lparr>token_text = [98], token_weight = 7\<rparr>, \<lparr>token_text = [97], token_weight = 5\<rparr>]"
    by (simp add: truncate_tokens_def)
  ultimately show ?thesis using d l by blast
qed

end
